theory Spec2Isabelle
  imports Main
begin

section \<open>Values, nodes and the transition table\<close>

text \<open>
  The engine passes \<^verbatim>\<open>interface{}\<close> values around and inspects only a few dynamic
  types: the nil interface, strings (actions), errors, \<^verbatim>\<open>[]interface{}\<close> (batch
  items and results) and \<^verbatim>\<open>map[string]interface{}\<close> (parameter overrides). An
  error is represented by its message, a map value by its entries (keys distinct).
\<close>

datatype val =
    VNil
  | VStr string
  | VErr string
  | VList "val list"
  | VMap "(string \<times> val) list"

text \<open>
  \<^verbatim>\<open>fmt.Sprintf("%v", v)\<close> on these dynamic types: nil prints as \<^verbatim>\<open><nil>\<close>,
  a string as itself, an error as its message, a slice as \<^verbatim>\<open>[a b c]\<close> and a map as
  \<^verbatim>\<open>map[k:v k:v]\<close> (entries taken in the order of the list).
\<close>

fun Sprint :: "val \<Rightarrow> string"
  and Sprint_elems :: "val list \<Rightarrow> string"
  and Sprint_entries :: "(string \<times> val) list \<Rightarrow> string"
  and Sprint_entry :: "string \<times> val \<Rightarrow> string" where
  "Sprint VNil = ''<nil>''"
| "Sprint (VStr s) = s"
| "Sprint (VErr e) = e"
| "Sprint (VList xs) = ''['' @ Sprint_elems xs @ '']''"
| "Sprint (VMap kvs) = ''map['' @ Sprint_entries kvs @ '']''"
| "Sprint_elems [] = []"
| "Sprint_elems [x] = Sprint x"
| "Sprint_elems (x # y # ys) = Sprint x @ '' '' @ Sprint_elems (y # ys)"
| "Sprint_entries [] = []"
| "Sprint_entries [e] = Sprint_entry e"
| "Sprint_entries (e # f # es) = Sprint_entry e @ '' '' @ Sprint_entries (f # es)"
| "Sprint_entry (k, v) = k @ '':'' @ Sprint v"

text \<open>
  A node lives at an address. An \<^verbatim>\<open>interface{}\<close> that holds a node is a pair of the
  dynamic type and the pointer; \<open>None\<close> is a nil pointer of that type. The address names the
  \<^verbatim>\<open>BaseNode\<close> struct itself for \<open>TBaseNode\<close>, and the embedded one that promoted
  fields and methods reach for every other type. \<open>TOther\<close> stands for a struct type declared
  outside the package (one that embeds a node type and adds methods of its own).
\<close>

type_synonym addr = nat

datatype gotype =
    TBaseNode | TNode | TBatchNode | TFlow | TBatchFlow
  | TAsyncNode | TAsyncBatchNode | TAsyncParallelBatchNode
  | TAsyncFlow | TAsyncBatchFlow | TAsyncParallelBatchFlow
  | TOther string

datatype iface = INil | IPtr gotype "addr option"

text \<open>
  \<^verbatim>\<open>type BaseNode struct { params, successors map[string]interface{} }\<close>.
  A nil \<^verbatim>\<open>params\<close> map is \<open>None\<close>; \<^verbatim>\<open>successors\<close> is the map made by
  \<^verbatim>\<open>NewBaseNode\<close>.
\<close>

record BaseNode =
  params :: "(string \<rightharpoonup> val) option"
  successors :: "string \<rightharpoonup> iface"

type_synonym heap = "addr \<Rightarrow> BaseNode"
type_synonym store = "string \<rightharpoonup> val"

definition NewBaseNode :: BaseNode where
  "NewBaseNode = \<lparr>params = Some Map.empty, successors = Map.empty\<rparr>"

text \<open>
  What a run leaves behind besides its result: the bodies of the lifecycle methods that were
  entered (with the node they ran on), the calls of the retry executors, the sleeps, and the
  lines written to the log.
\<close>

datatype event =
    EvPrep addr
  | EvExec addr
  | EvPost addr
  | EvFlowPost addr val val
  | EvExecCall val
  | EvFallback val string
  | EvSleep int
  | EvPrepAsync addr
  | EvExecAsyncCall val
  | EvFallbackAsync val string
  | EvPostAsync addr
  | LogOverwrite string
  | LogFlowEnds string "string set"
  | LogWontRunSuccessors

definition SetParams :: "heap \<Rightarrow> addr \<Rightarrow> (string \<rightharpoonup> val) option \<Rightarrow> heap" where
  "SetParams h b ps = h(b := (h b)\<lparr>params := ps\<rparr>)"

text \<open>
  \<^verbatim>\<open>func (b *BaseNode) Next(node interface{}, action string) interface{}\<close>: returns the
  node it was given, the heap with the entry written, and the log line if one was printed.
\<close>

definition Next :: "heap \<Rightarrow> addr \<Rightarrow> iface \<Rightarrow> string \<Rightarrow> iface \<times> heap \<times> event list" where
  "Next h b node action =
     (let action = (if action = [] then ''default'' else action);
          warn = (if successors (h b) action \<noteq> None then [LogOverwrite action] else [])
      in (node, h(b := (h b)\<lparr>successors := (successors (h b))(action \<mapsto> node)\<rparr>), warn))"

text \<open>
  \<^verbatim>\<open>func (f *Flow) GetNextNode(curr *BaseNode, action string) interface{}\<close>. A key
  that is absent reads as the nil interface. The flow receiver is not used.
\<close>

definition GetNextNode :: "BaseNode \<Rightarrow> string \<Rightarrow> iface \<times> event list" where
  "GetNextNode cur action =
     (let action = (if action = [] then ''default'' else action);
          entry = successors cur action;
          next = (case entry of None \<Rightarrow> INil | Some n \<Rightarrow> n);
          warn = (if entry = None \<and> successors cur \<noteq> Map.empty
                  then [LogFlowEnds action (dom (successors cur))] else [])
      in (next, warn))"

text \<open>
  A type assertion \<^verbatim>\<open>v.(*T)\<close> on an \<^verbatim>\<open>interface{}\<close>: it succeeds, with the pointer,
  exactly when the dynamic type of the value is \<^verbatim>\<open>*T\<close>.
\<close>

definition type_assert :: "gotype \<Rightarrow> iface \<Rightarrow> addr option option" where
  "type_assert ty v = (case v of INil \<Rightarrow> None | IPtr ty' p \<Rightarrow> if ty' = ty then Some p else None)"

section \<open>The lifecycle of BaseNode\<close>

text \<open>
  \<^verbatim>\<open>Prep\<close>, \<^verbatim>\<open>Exec\<close> and \<^verbatim>\<open>Post\<close> of \<^verbatim>\<open>*BaseNode\<close> return nil and leave the
  store alone. A method call in Go is bound by the static type of the receiver: a struct
  that embeds \<^verbatim>\<open>*BaseNode\<close> and declares a method of the same name does not change what
  \<^verbatim>\<open>b.Prep\<close>, \<^verbatim>\<open>b.execInternal\<close> and \<^verbatim>\<open>b.Post\<close> mean inside
  \<^verbatim>\<open>(*BaseNode).runInternal\<close>.
\<close>

definition BaseNode_Prep :: "store \<Rightarrow> val" where
  "BaseNode_Prep shared = VNil"

definition BaseNode_Exec :: "val \<Rightarrow> val" where
  "BaseNode_Exec prepRes = VNil"

definition BaseNode_Post :: "store \<Rightarrow> val \<Rightarrow> val \<Rightarrow> val" where
  "BaseNode_Post shared prepRes execRes = VNil"

definition BaseNode_execInternal :: "val \<Rightarrow> val" where
  "BaseNode_execInternal prepRes = BaseNode_Exec prepRes"

definition BaseNode_runInternal :: "addr \<Rightarrow> store \<Rightarrow> val \<times> store \<times> event list" where
  "BaseNode_runInternal b shared =
     (let prepRes = BaseNode_Prep shared;
          execRes = BaseNode_execInternal prepRes
      in (BaseNode_Post shared prepRes execRes, shared, [EvPrep b, EvExec b, EvPost b]))"

text \<open>
  \<^verbatim>\<open>func (b *BaseNode) Run(shared map[string]interface{}) interface{}\<close>, the exported
  entry point. No other type declares a \<^verbatim>\<open>Run\<close>, so \<^verbatim>\<open>x.Run(shared)\<close> on a node or
  a flow of any type is this method on the embedded \<^verbatim>\<open>*BaseNode\<close>.
\<close>

definition Run :: "heap \<Rightarrow> addr \<Rightarrow> store \<Rightarrow> val \<times> store \<times> event list" where
  "Run h b shared =
     (let warn = (if successors (h b) \<noteq> Map.empty then [LogWontRunSuccessors] else []);
          ran = BaseNode_runInternal b shared
      in (fst ran, fst (snd ran), warn @ snd (snd ran)))"

section \<open>The synchronous flow\<close>

text \<open>
  \<^verbatim>\<open>type Flow struct { *BaseNode; startNode interface{} }\<close>: the address of the embedded
  node and the start node.
\<close>

record Flow =
  flow_base :: addr
  startNode :: iface

text \<open>
  The loop of \<^verbatim>\<open>(*Flow).orchestrate\<close>, from the current node \<open>cur\<close> (a
  \<^verbatim>\<open>*BaseNode\<close>, nil when \<open>None\<close>) and the last action seen. The result is the last action,
  the heap, the store and the events; \<open>None\<close> is a loop that never ends (a cycle in the
  transition table).
\<close>

partial_function (option) orchestrate_loop ::
  "heap \<Rightarrow> store \<Rightarrow> (string \<rightharpoonup> val) option \<Rightarrow> addr option \<Rightarrow> val \<Rightarrow> event list
   \<Rightarrow> (val \<times> heap \<times> store \<times> event list) option" where
  "orchestrate_loop h shared ps cur lastAction tr =
     (case cur of
        None \<Rightarrow> Some (lastAction, h, shared, tr)
      | Some c \<Rightarrow>
          (let h1 = SetParams h c ps;
               ran = BaseNode_runInternal c shared;
               lastAction = fst ran;
               shared = fst (snd ran);
               got = GetNextNode (h1 c) (Sprint lastAction);
               nextNode = fst got;
               tr = tr @ snd (snd ran) @ snd got
           in if nextNode = INil then Some (lastAction, h1, shared, tr)
              else (case type_assert TBaseNode nextNode of
                      None \<Rightarrow> Some (lastAction, h1, shared, tr)
                    | Some nextBaseNode \<Rightarrow> orchestrate_loop h1 shared ps nextBaseNode lastAction tr)))"

text \<open>
  \<^verbatim>\<open>func (f *Flow) orchestrate(shared, params map[string]interface{}) interface{}\<close>.
  A nil \<^verbatim>\<open>params\<close> is replaced by a copy of the flow's own.
\<close>

definition orchestrate ::
  "heap \<Rightarrow> Flow \<Rightarrow> store \<Rightarrow> (string \<rightharpoonup> val) option
   \<Rightarrow> (val \<times> heap \<times> store \<times> event list) option" where
  "orchestrate h f shared ps =
     (if startNode f = INil then Some (VNil, h, shared, [])
      else
        (let ps = (case ps of
                     None \<Rightarrow> Some (case params (h (flow_base f)) of None \<Rightarrow> Map.empty | Some m \<Rightarrow> m)
                   | Some m \<Rightarrow> Some m)
         in (case type_assert TBaseNode (startNode f) of
               None \<Rightarrow> Some (VNil, h, shared, [])
             | Some cur \<Rightarrow> orchestrate_loop h shared ps cur VNil [])))"

definition Flow_Post :: "store \<Rightarrow> val \<Rightarrow> val \<Rightarrow> val" where
  "Flow_Post shared prepRes execRes = execRes"

text \<open>
  \<^verbatim>\<open>(*Flow).runInternal\<close>: \<^verbatim>\<open>f.Prep\<close> is the promoted \<^verbatim>\<open>(*BaseNode).Prep\<close>,
  \<^verbatim>\<open>f.Post\<close> is \<^verbatim>\<open>(*Flow).Post\<close>.
\<close>

definition Flow_runInternal ::
  "heap \<Rightarrow> Flow \<Rightarrow> store \<Rightarrow> (val \<times> heap \<times> store \<times> event list) option" where
  "Flow_runInternal h f shared =
     (let prepRes = BaseNode_Prep shared
      in (case orchestrate h f shared None of
            None \<Rightarrow> None
          | Some (orchRes, h', shared', tr) \<Rightarrow>
              Some (Flow_Post shared' prepRes orchRes, h', shared',
                    [EvPrep (flow_base f)] @ tr @ [EvFlowPost (flow_base f) prepRes orchRes])))"

section \<open>The retry executor\<close>

text \<open>
  What a call of \<^verbatim>\<open>Exec\<close> or \<^verbatim>\<open>ExecAsync\<close> can do: return a value, or panic. A panic
  is represented by the error the recover blocks make of the recovered value (the value
  itself when it is an error, \<^verbatim>\<open>fmt.Errorf("%v", v)\<close> otherwise).
\<close>

datatype 'a outcome = Returns 'a | Panics string

text \<open>
  \<^verbatim>\<open>type Node struct { *BaseNode; maxRetries int; wait time.Duration; curRetry int }\<close>,
  without the embedded pointer; \<^verbatim>\<open>AsyncNode\<close> embeds \<^verbatim>\<open>*Node\<close> and adds no field.
\<close>

record Node =
  maxRetries :: int
  wait :: int
  curRetry :: int

definition NewNode :: "int \<Rightarrow> int \<Rightarrow> Node" where
  "NewNode m w = \<lparr>maxRetries = m, wait = w, curRetry = 0\<rparr>"

definition Node_ExecFallback :: "val \<Rightarrow> string \<Rightarrow> val" where
  "Node_ExecFallback prepRes err = VErr err"

text \<open>
  \<^verbatim>\<open>n.Exec\<close> with \<^verbatim>\<open>n *Node\<close> is the promoted \<^verbatim>\<open>(*BaseNode).Exec\<close>:
  \<^verbatim>\<open>Node\<close> declares no \<^verbatim>\<open>Exec\<close> of its own.
\<close>

definition Node_Exec :: "val \<Rightarrow> val outcome" where
  "Node_Exec prepRes = Returns (BaseNode_Exec prepRes)"

text \<open>
  The \<^verbatim>\<open>for\<close> loop of \<^verbatim>\<open>(*Node).execInternal\<close> from the current \<^verbatim>\<open>curRetry\<close>,
  for an arbitrary body \<open>Exec\<close> of the call \<^verbatim>\<open>n.Exec(prepRes)\<close>. The recover closure is
  registered with \<^verbatim>\<open>defer\<close> in the loop body, so it runs when \<^verbatim>\<open>execInternal\<close>
  itself returns or panics, not at the end of the iteration: \<^verbatim>\<open>err\<close> is still nil when
  it is tested, and a panic of \<^verbatim>\<open>Exec\<close> leaves the function at once; the closure then
  stops the panic and \<^verbatim>\<open>execInternal\<close> returns the zero value of its unnamed result.
\<close>

function Node_attempts :: "(val \<Rightarrow> val outcome) \<Rightarrow> Node \<Rightarrow> val \<Rightarrow> val \<times> Node \<times> event list" where
  "Node_attempts Exec n prepRes =
     (if curRetry n < maxRetries n then
        (let err = (None :: string option)
         in (case Exec prepRes of
               Panics e \<Rightarrow> (VNil, n, [EvExecCall prepRes])
             | Returns result \<Rightarrow>
                 (case err of
                    None \<Rightarrow> (result, n, [EvExecCall prepRes])
                  | Some e \<Rightarrow>
                      if curRetry n = maxRetries n - 1
                      then (Node_ExecFallback prepRes e, n, [EvExecCall prepRes, EvFallback prepRes e])
                      else (let rest = Node_attempts Exec (n\<lparr>curRetry := curRetry n + 1\<rparr>) prepRes
                            in (fst rest, fst (snd rest),
                                [EvExecCall prepRes] @ (if wait n > 0 then [EvSleep (wait n)] else [])
                                  @ snd (snd rest))))))
      else (VNil, n, []))"
  by pat_completeness auto
termination
  by (relation "measure (\<lambda>(Exec, n, prepRes). nat (maxRetries n - curRetry n))") auto

definition Node_execInternal :: "(val \<Rightarrow> val outcome) \<Rightarrow> Node \<Rightarrow> val \<Rightarrow> val \<times> Node \<times> event list" where
  "Node_execInternal Exec n prepRes = Node_attempts Exec (n\<lparr>curRetry := 0\<rparr>) prepRes"

section \<open>The batch executor\<close>

text \<open>
  The \<^verbatim>\<open>range\<close> loop of \<^verbatim>\<open>(*BatchNode).execInternal\<close>: each item goes through
  \<^verbatim>\<open>b.Node.execInternal\<close>, on the one embedded \<^verbatim>\<open>*Node\<close>.
\<close>

fun BatchNode_items :: "(val \<Rightarrow> val outcome) \<Rightarrow> Node \<Rightarrow> val list \<Rightarrow> val list \<times> Node \<times> event list" where
  "BatchNode_items Exec n [] = ([], n, [])"
| "BatchNode_items Exec n (item # items) =
     (let one = Node_execInternal Exec n item;
          rest = BatchNode_items Exec (fst (snd one)) items
      in (fst one # fst rest, fst (snd rest), snd (snd one) @ snd (snd rest)))"

definition BatchNode_execInternal :: "(val \<Rightarrow> val outcome) \<Rightarrow> Node \<Rightarrow> val \<Rightarrow> val \<times> Node \<times> event list" where
  "BatchNode_execInternal Exec n items =
     (case items of
        VNil \<Rightarrow> (VList [], n, [])
      | VList itemsSlice \<Rightarrow>
          (let done = BatchNode_items Exec n itemsSlice
           in (VList (fst done), fst (snd done), snd (snd done)))
      | _ \<Rightarrow> (VList [], n, []))"

section \<open>The batch flow\<close>

text \<open>
  The \<^verbatim>\<open>range\<close> loop of \<^verbatim>\<open>(*BatchFlow).runInternal\<close> over the prepared slice: an
  element that is not a map is skipped; a map is written over a copy of the flow's own
  parameters and \<^verbatim>\<open>orchestrate\<close> runs once with the result, its return value dropped.
\<close>

fun BatchFlow_runs ::
  "heap \<Rightarrow> Flow \<Rightarrow> store \<Rightarrow> val list \<Rightarrow> event list \<Rightarrow> (heap \<times> store \<times> event list) option" where
  "BatchFlow_runs h f shared [] tr = Some (h, shared, tr)"
| "BatchFlow_runs h f shared (bp # bps) tr =
     (case bp of
        VMap bpMap \<Rightarrow>
          (let own = (case params (h (flow_base f)) of None \<Rightarrow> Map.empty | Some m \<Rightarrow> m);
               ps = own ++ map_of bpMap
           in (case orchestrate h f shared (Some ps) of
                 None \<Rightarrow> None
               | Some (res, h', shared', t) \<Rightarrow> BatchFlow_runs h' f shared' bps (tr @ t)))
      | _ \<Rightarrow> BatchFlow_runs h f shared bps tr)"

text \<open>
  \<^verbatim>\<open>(*BatchFlow).runInternal\<close>. \<^verbatim>\<open>b.Prep\<close> is the promoted
  \<^verbatim>\<open>(*BaseNode).Prep\<close> and \<^verbatim>\<open>b.Post\<close> is \<^verbatim>\<open>(*Flow).Post\<close>.
\<close>

definition BatchFlow_runInternal ::
  "heap \<Rightarrow> Flow \<Rightarrow> store \<Rightarrow> (val \<times> heap \<times> store \<times> event list) option" where
  "BatchFlow_runInternal h b shared =
     (let prepRes = BaseNode_Prep shared;
          prepSlice = (case prepRes of VList xs \<Rightarrow> xs | _ \<Rightarrow> [])
      in (case BatchFlow_runs h b shared prepSlice [EvPrep (flow_base b)] of
            None \<Rightarrow> None
          | Some (h', shared', tr) \<Rightarrow>
              Some (Flow_Post shared' prepRes VNil, h', shared',
                    tr @ [EvFlowPost (flow_base b) prepRes VNil])))"

section \<open>Asynchronous nodes\<close>

definition AsyncNode_PrepAsync :: "store \<Rightarrow> val" where
  "AsyncNode_PrepAsync shared = VNil"

definition AsyncNode_ExecAsync :: "val \<Rightarrow> val outcome" where
  "AsyncNode_ExecAsync prepRes = Returns VNil"

definition AsyncNode_ExecFallbackAsync :: "val \<Rightarrow> string \<Rightarrow> val" where
  "AsyncNode_ExecFallbackAsync prepRes err = VErr err"

definition AsyncNode_PostAsync :: "store \<Rightarrow> val \<Rightarrow> val \<Rightarrow> val" where
  "AsyncNode_PostAsync shared prepRes execRes = VNil"

text \<open>
  The loop of \<^verbatim>\<open>(*AsyncNode).execAsyncInternal\<close> from attempt \<open>i\<close>, for an arbitrary body
  \<open>ExecAsync\<close> of the call \<^verbatim>\<open>a.ExecAsync(prepRes)\<close>. Each attempt runs in a closure of
  its own that recovers before the attempt is judged. The value is what a receive on the
  returned channel yields: the value sent, or nil when the goroutine closes the channel
  without a send.
\<close>

function AsyncNode_attempts :: "(val \<Rightarrow> val outcome) \<Rightarrow> Node \<Rightarrow> int \<Rightarrow> val \<Rightarrow> val \<times> event list" where
  "AsyncNode_attempts ExecAsync a i prepRes =
     (if i < maxRetries a then
        (case ExecAsync prepRes of
           Returns res \<Rightarrow> (res, [EvExecAsyncCall prepRes])
         | Panics err \<Rightarrow>
             if i = maxRetries a - 1
             then (AsyncNode_ExecFallbackAsync prepRes err,
                   [EvExecAsyncCall prepRes, EvFallbackAsync prepRes err])
             else (let rest = AsyncNode_attempts ExecAsync a (i + 1) prepRes
                   in (fst rest,
                       [EvExecAsyncCall prepRes] @ (if wait a > 0 then [EvSleep (wait a)] else [])
                         @ snd rest)))
      else (VNil, []))"
  by pat_completeness auto
termination
  by (relation "measure (\<lambda>(ExecAsync, a, i, prepRes). nat (maxRetries a - i))") auto

definition AsyncNode_execAsyncInternal :: "(val \<Rightarrow> val outcome) \<Rightarrow> Node \<Rightarrow> val \<Rightarrow> val \<times> event list" where
  "AsyncNode_execAsyncInternal ExecAsync a prepRes = AsyncNode_attempts ExecAsync a 0 prepRes"

text \<open>
  \<^verbatim>\<open>(*AsyncNode).runAsyncInternal\<close>, as the value its channel yields: the three async
  phases of \<^verbatim>\<open>AsyncNode\<close> itself, on the node at address \<open>b\<close>.
\<close>

definition AsyncNode_runAsyncInternal :: "Node \<Rightarrow> addr \<Rightarrow> store \<Rightarrow> val \<times> store \<times> event list" where
  "AsyncNode_runAsyncInternal a b shared =
     (let prepRes = AsyncNode_PrepAsync shared;
          exec = AsyncNode_execAsyncInternal AsyncNode_ExecAsync a prepRes;
          postRes = AsyncNode_PostAsync shared prepRes (fst exec)
      in (postRes, shared, [EvPrepAsync b] @ snd exec @ [EvPostAsync b]))"

text \<open>\<^verbatim>\<open>func (a *AsyncNode) runInternal(shared map[string]interface{}) interface{}\<close>.\<close>

definition AsyncNode_runInternal :: "store \<Rightarrow> val \<times> store \<times> event list" where
  "AsyncNode_runInternal shared = (VErr ''use RunAsync'', shared, [])"

section \<open>The asynchronous flow\<close>

text \<open>
  The loop of \<^verbatim>\<open>(*AsyncFlow).orchestrateAsync\<close>. The current node \<^verbatim>\<open>curr\<close> is a
  \<^verbatim>\<open>*BaseNode\<close>, so the interface value that the async test converts it to has the
  dynamic type \<^verbatim>\<open>*BaseNode\<close>. \<open>pol\<close> gives the retry policy of the node at an address.
\<close>

partial_function (option) orchestrateAsync_loop ::
  "(addr \<Rightarrow> Node) \<Rightarrow> heap \<Rightarrow> store \<Rightarrow> (string \<rightharpoonup> val) option \<Rightarrow> addr option \<Rightarrow> val \<Rightarrow> event list
   \<Rightarrow> (val \<times> heap \<times> store \<times> event list) option" where
  "orchestrateAsync_loop pol h shared ps cur lastAction tr =
     (case cur of
        None \<Rightarrow> Some (lastAction, h, shared, tr)
      | Some c \<Rightarrow>
          (let h1 = SetParams h c ps;
               isAsync = (type_assert TAsyncNode (IPtr TBaseNode (Some c)) \<noteq> None);
               ran = (if isAsync then AsyncNode_runAsyncInternal (pol c) c shared
                      else BaseNode_runInternal c shared);
               lastAction = fst ran;
               shared = fst (snd ran);
               got = GetNextNode (h1 c) (Sprint lastAction);
               nextNode = fst got;
               tr = tr @ snd (snd ran) @ snd got
           in if nextNode = INil then Some (lastAction, h1, shared, tr)
              else (case type_assert TBaseNode nextNode of
                      None \<Rightarrow> Some (lastAction, h1, shared, tr)
                    | Some nextBaseNode \<Rightarrow>
                        orchestrateAsync_loop pol h1 shared ps nextBaseNode lastAction tr)))"

text \<open>
  \<^verbatim>\<open>(*AsyncFlow).orchestrateAsync\<close>, as the value its channel yields. \<^verbatim>\<open>a.startNode\<close>
  and \<^verbatim>\<open>a.params\<close> are those of the embedded \<^verbatim>\<open>*Flow\<close>.
\<close>

definition orchestrateAsync ::
  "(addr \<Rightarrow> Node) \<Rightarrow> heap \<Rightarrow> Flow \<Rightarrow> store \<Rightarrow> (string \<rightharpoonup> val) option
   \<Rightarrow> (val \<times> heap \<times> store \<times> event list) option" where
  "orchestrateAsync pol h a shared ps =
     (if startNode a = INil then Some (VNil, h, shared, [])
      else
        (let ps = (case ps of
                     None \<Rightarrow> Some (case params (h (flow_base a)) of None \<Rightarrow> Map.empty | Some m \<Rightarrow> m)
                   | Some m \<Rightarrow> Some m)
         in (case type_assert TBaseNode (startNode a) of
               None \<Rightarrow> Some (VNil, h, shared, [])
             | Some cur \<Rightarrow> orchestrateAsync_loop pol h shared ps cur VNil [])))"

section \<open>The parallel batch executor\<close>

text \<open>
  \<^verbatim>\<open>(*AsyncParallelBatchNode).execAsyncInternal\<close> starts one goroutine per item and one
  collector, and returns the channel \<^verbatim>\<open>result\<close>. The launching goroutine has
  \<^verbatim>\<open>defer close(result)\<close> and ends as soon as the collector is started; the collector waits
  for the item tasks, reads their slots in index order and sends the slice on
  \<^verbatim>\<open>result\<close>. What the caller receives depends on the scheduler, which is an input
  here: the order in which the item tasks finish, and whether the launcher's close comes
  before the collector's send.
\<close>

record schedule =
  completion :: "nat list"
  close_first :: bool

text \<open>
  What the caller's receive on \<^verbatim>\<open>result\<close> yields, and whether the collector's send found
  the channel closed (a run-time panic in that goroutine).
\<close>

record delivery =
  received :: val
  send_on_closed :: bool

text \<open>Each finished task puts its value into the one-place channel of its index.\<close>

definition put_slot :: "(val \<Rightarrow> val) \<Rightarrow> val list \<Rightarrow> nat \<Rightarrow> val option list \<Rightarrow> val option list" where
  "put_slot task itemsSlice idx slots =
     (if idx < length itemsSlice then slots[idx := Some (task (itemsSlice ! idx))] else slots)"

definition fill_slots :: "(val \<Rightarrow> val) \<Rightarrow> val list \<Rightarrow> nat list \<Rightarrow> val option list" where
  "fill_slots task itemsSlice order =
     fold (put_slot task itemsSlice) order (replicate (length itemsSlice) None)"

text \<open>
  The collector, after \<^verbatim>\<open>wg.Wait()\<close>: the slots in index order; \<open>None\<close> while a task has
  not finished (the collector is still waiting).
\<close>

definition collect :: "val option list \<Rightarrow> val list option" where
  "collect slots = (if list_all (\<lambda>s. s \<noteq> None) slots then Some (map the slots) else None)"

definition AsyncParallelBatchNode_execAsyncInternal ::
  "(val \<Rightarrow> val outcome) \<Rightarrow> Node \<Rightarrow> schedule \<Rightarrow> val \<Rightarrow> delivery" where
  "AsyncParallelBatchNode_execAsyncInternal ExecAsync a sched items =
     (case items of
        VNil \<Rightarrow> \<lparr>received = VList [], send_on_closed = False\<rparr>
      | VList itemsSlice \<Rightarrow>
          (case collect (fill_slots (\<lambda>itm. fst (AsyncNode_execAsyncInternal ExecAsync a itm))
                           itemsSlice (completion sched)) of
             None \<Rightarrow> \<lparr>received = VNil, send_on_closed = False\<rparr>
           | Some results \<Rightarrow>
               if close_first sched then \<lparr>received = VNil, send_on_closed = True\<rparr>
               else \<lparr>received = VList results, send_on_closed = False\<rparr>)
      | _ \<Rightarrow> \<lparr>received = VList [], send_on_closed = False\<rparr>)"

section \<open>Two wired nodes\<close>

text \<open>
  Nodes \<open>A\<close> (address 0) and \<open>B\<close> (address 1), both fresh from \<^verbatim>\<open>NewBaseNode\<close>, after
  \<^verbatim>\<open>A.Next(B, action)\<close>, where the interface value that holds \<open>B\<close> has the dynamic type
  \<open>ty\<close>; and a flow (its own embedded node at address 2) that starts at \<open>A\<close>, held with the
  dynamic type \<open>ty\<close>.
\<close>

definition wired :: "gotype \<Rightarrow> string \<Rightarrow> heap" where
  "wired ty action = fst (snd (Next (\<lambda>_. NewBaseNode) 0 (IPtr ty (Some 1)) action))"

definition flow_from_A :: "gotype \<Rightarrow> Flow" where
  "flow_from_A ty = \<lparr>flow_base = 2, startNode = IPtr ty (Some 0)\<rparr>"

section \<open>Action normalisation\<close>

text \<open>The equations of the two retry loops call themselves; they are unfolded by hand.\<close>

declare Node_attempts.simps [simp del]
declare AsyncNode_attempts.simps [simp del]

text \<open>
  C9. The empty action is the key \<open>default\<close>, at registration and at lookup: registering a
  successor under the empty string and under \<open>default\<close> give the same node, the same
  successor table and the same log line, and looking the empty string up gives the same
  successor and the same log line as looking \<open>default\<close> up; the entry written is the one
  under \<open>default\<close>.
\<close>

theorem empty_action_is_default:
  "Next h b node [] = Next h b node ''default''
   \<and> successors ((fst (snd (Next h b node []))) b) ''default'' = Some node
   \<and> GetNextNode cur [] = GetNextNode cur ''default''
   \<and> fst (GetNextNode cur []) = (case successors cur ''default'' of None \<Rightarrow> INil | Some n \<Rightarrow> n)"
  by (simp add: Next_def GetNextNode_def Let_def)

section \<open>The synchronous entry of an async node\<close>

text \<open>
  C10. The synchronous run path of an async node executes no phase of the lifecycle: for
  every store, \<^verbatim>\<open>(*AsyncNode).runInternal\<close> returns the error \<open>use RunAsync\<close>, enters no
  Prep, Exec or Post (no event at all) and hands the store back as it was.
\<close>

theorem async_node_refuses_sync_run:
  "fst (AsyncNode_runInternal shared) = VErr ''use RunAsync''
   \<and> fst (snd (AsyncNode_runInternal shared)) = shared
   \<and> snd (snd (AsyncNode_runInternal shared)) = []"
  by (simp add: AsyncNode_runInternal_def)

section \<open>The end of a flow\<close>

lemma successors_SetParams [simp]: "successors (SetParams h c ps c') = successors (h c')"
  by (simp add: SetParams_def)

lemma BaseNode_runInternal_value [simp]:
  "BaseNode_runInternal c shared = (VNil, shared, [EvPrep c, EvExec c, EvPost c])"
  by (simp add: BaseNode_runInternal_def BaseNode_Prep_def BaseNode_Post_def
      BaseNode_execInternal_def BaseNode_Exec_def)

text \<open>
  C3. At any step of a flow run, when the action the current node returned has no entry in
  the node's successor table and the table has no \<open>default\<close> entry, the loop ends there with
  a result (no error, no further node): the result is that last action. The step logs one
  warning when the table has other entries and nothing when the table is empty. The loop
  is tail recursive, so what it returns from the current node is what the flow returns.
\<close>

theorem flow_ends_on_unmatched_action:
  assumes "successors (h c) (Sprint (fst (BaseNode_runInternal c shared))) = None"
    and "successors (h c) ''default'' = None"
  shows "orchestrate_loop h shared ps (Some c) lastAction tr =
           Some (fst (BaseNode_runInternal c shared), SetParams h c ps, shared,
                 tr @ [EvPrep c, EvExec c, EvPost c] @
                 (if successors (h c) = Map.empty then []
                  else [LogFlowEnds (Sprint (fst (BaseNode_runInternal c shared)))
                          (dom (successors (h c)))]))"
proof -
  have key: "successors (h c) ''<nil>'' = None"
    using assms(1) by simp
  show ?thesis
    by (subst orchestrate_loop.simps) (simp add: GetNextNode_def key)
qed

theorem flow_ends_on_unmatched_action_witness:
  "orchestrate_loop (wired TBaseNode ''x'') Map.empty None (Some 0) VNil [] =
     Some (VNil, SetParams (wired TBaseNode ''x'') 0 None, Map.empty,
           [EvPrep 0, EvExec 0, EvPost 0, LogFlowEnds ''<nil>'' {''x''}])
   \<and> orchestrate_loop (wired TBaseNode ''x'') Map.empty None (Some 1) VNil [] =
     Some (VNil, SetParams (wired TBaseNode ''x'') 1 None, Map.empty,
           [EvPrep 1, EvExec 1, EvPost 1])"
  using flow_ends_on_unmatched_action
          [where h = "wired TBaseNode ''x''" and c = 0 and shared = Map.empty
             and ps = None and lastAction = VNil and tr = "[]"]
        flow_ends_on_unmatched_action
          [where h = "wired TBaseNode ''x''" and c = 1 and shared = Map.empty
             and ps = None and lastAction = VNil and tr = "[]"]
  by (simp add: wired_def Next_def NewBaseNode_def)

section \<open>Which nodes a flow runs\<close>

text \<open>
  A start node of any dynamic type but \<^verbatim>\<open>*BaseNode\<close> ends \<^verbatim>\<open>orchestrate\<close> before the
  loop; and whatever the graph, a flow that returns returns nil and leaves the store as it
  was, because the only lifecycle the loop runs is the one of \<^verbatim>\<open>BaseNode\<close>.
\<close>

lemma orchestrate_other_type:
  "ty \<noteq> TBaseNode \<Longrightarrow>
   orchestrate h \<lparr>flow_base = fb, startNode = IPtr ty p\<rparr> shared ps = Some (VNil, h, shared, [])"
  by (simp add: orchestrate_def type_assert_def)

lemma orchestrate_loop_result:
  assumes "orchestrate_loop h shared ps cur la tr = Some y"
  shows "(fst y = VNil \<or> fst y = la) \<and> fst (snd (snd y)) = shared"
  using assms
proof (induction rule: orchestrate_loop.raw_induct[rotated -1, consumes 1, case_names step])
  case (step f h shared ps cur la tr y)
  show ?case
    using step(2)
    by (auto simp: Let_def split: option.splits if_splits dest: step(1))
qed

lemma orchestrate_result:
  assumes "orchestrate h f shared ps = Some y"
  shows "fst y = VNil \<and> fst (snd (snd y)) = shared"
proof (cases "startNode f = INil \<or> type_assert TBaseNode (startNode f) = None")
  case True
  then show ?thesis
    using assms by (auto simp: orchestrate_def Let_def split: if_splits)
next
  case False
  then obtain cur where cur: "type_assert TBaseNode (startNode f) = Some cur"
    by auto
  define ps' where "ps' = (case ps of
      None \<Rightarrow> Some (case params (h (flow_base f)) of None \<Rightarrow> Map.empty | Some m \<Rightarrow> m)
    | Some m \<Rightarrow> Some m)"
  have "orchestrate_loop h shared ps' cur VNil [] = Some y"
    using assms False cur by (simp add: orchestrate_def ps'_def)
  from orchestrate_loop_result[OF this] show ?thesis by simp
qed

text \<open>
  C1, evaluated. \<open>A\<close> and \<open>B\<close> come from \<^verbatim>\<open>NewNode\<close> and \<open>B\<close> is registered as the
  successor of \<open>A\<close> under \<open>x\<close>: \<^verbatim>\<open>orchestrate\<close> returns nil and enters no phase of \<open>A\<close>,
  because the start node is not a \<^verbatim>\<open>*BaseNode\<close>. When both are plain \<^verbatim>\<open>*BaseNode\<close>
  values the phases of \<open>A\<close> run, its Post returns nil, and the flow ends after \<open>A\<close>; \<open>B\<close>
  runs next when it is registered under the text \<^verbatim>\<open><nil>\<close>. The exported
  \<^verbatim>\<open>Run\<close> of the flow runs the three phases of the flow's own embedded node (address 2)
  and never reaches \<open>A\<close>.
\<close>

theorem flow_runs_only_plain_base_nodes:
  "orchestrate (wired TNode ''x'') (flow_from_A TNode) shared None =
     Some (VNil, wired TNode ''x'', shared, [])
   \<and> orchestrate (wired TBaseNode ''x'') (flow_from_A TBaseNode) shared None =
     Some (VNil, SetParams (wired TBaseNode ''x'') 0 (Some Map.empty), shared,
           [EvPrep 0, EvExec 0, EvPost 0, LogFlowEnds ''<nil>'' {''x''}])
   \<and> orchestrate (wired TBaseNode ''<nil>'') (flow_from_A TBaseNode) shared None =
     Some (VNil,
           SetParams (SetParams (wired TBaseNode ''<nil>'') 0 (Some Map.empty)) 1 (Some Map.empty),
           shared, [EvPrep 0, EvExec 0, EvPost 0, EvPrep 1, EvExec 1, EvPost 1])
   \<and> Run (wired TBaseNode ''x'') (flow_base (flow_from_A TBaseNode)) shared =
     (VNil, shared, [EvPrep 2, EvExec 2, EvPost 2])"
proof -
  have one: "orchestrate (wired TNode ''x'') (flow_from_A TNode) shared None =
               Some (VNil, wired TNode ''x'', shared, [])"
    by (simp add: orchestrate_def flow_from_A_def type_assert_def)
  have two: "orchestrate (wired TBaseNode ''x'') (flow_from_A TBaseNode) shared None =
     Some (VNil, SetParams (wired TBaseNode ''x'') 0 (Some Map.empty), shared,
           [EvPrep 0, EvExec 0, EvPost 0, LogFlowEnds ''<nil>'' {''x''}])"
    apply (simp add: orchestrate_def flow_from_A_def type_assert_def)
    apply (subst orchestrate_loop.simps)
    apply (simp add: wired_def Next_def NewBaseNode_def GetNextNode_def)
    done
  have three: "orchestrate (wired TBaseNode ''<nil>'') (flow_from_A TBaseNode) shared None =
     Some (VNil,
           SetParams (SetParams (wired TBaseNode ''<nil>'') 0 (Some Map.empty)) 1 (Some Map.empty),
           shared, [EvPrep 0, EvExec 0, EvPost 0, EvPrep 1, EvExec 1, EvPost 1])"
    apply (simp add: orchestrate_def flow_from_A_def type_assert_def)
    apply (subst orchestrate_loop.simps)
    apply (simp add: wired_def Next_def NewBaseNode_def GetNextNode_def type_assert_def)
    apply (subst orchestrate_loop.simps)
    apply (simp add: SetParams_def NewBaseNode_def GetNextNode_def)
    done
  have four: "Run (wired TBaseNode ''x'') (flow_base (flow_from_A TBaseNode)) shared =
     (VNil, shared, [EvPrep 2, EvExec 2, EvPost 2])"
    by (simp add: Run_def flow_from_A_def wired_def Next_def NewBaseNode_def)
  from one two three four show ?thesis by simp
qed

section \<open>Retry and fallback\<close>

text \<open>
  The synchronous loop never reaches a second attempt: an attempt that returns is taken as
  a success, and one that panics ends \<^verbatim>\<open>execInternal\<close> with nil.
\<close>

lemma Node_attempts_once:
  "Node_attempts Exec n prepRes =
     (if curRetry n < maxRetries n
      then (case Exec prepRes of
              Returns result \<Rightarrow> (result, n, [EvExecCall prepRes])
            | Panics e \<Rightarrow> (VNil, n, [EvExecCall prepRes]))
      else (VNil, n, []))"
  by (subst Node_attempts.simps) (simp add: Let_def split: outcome.splits)

lemma Node_execInternal_once:
  "Node_execInternal Exec n prepRes =
     (if 0 < maxRetries n
      then (case Exec prepRes of
              Returns result \<Rightarrow> (result, n\<lparr>curRetry := 0\<rparr>, [EvExecCall prepRes])
            | Panics e \<Rightarrow> (VNil, n\<lparr>curRetry := 0\<rparr>, [EvExecCall prepRes]))
      else (VNil, n\<lparr>curRetry := 0\<rparr>, []))"
  by (simp add: Node_execInternal_def Node_attempts_once)

lemma Node_execInternal_curRetry:
  "Node_execInternal Exec (n\<lparr>curRetry := k\<rparr>) prepRes = Node_execInternal Exec n prepRes"
  by (simp add: Node_execInternal_def)

text \<open>
  C2, evaluated. The policy is the one of the repository's retry test, \<^verbatim>\<open>NewNode(3, 10ms)\<close>,
  and \<^verbatim>\<open>Exec\<close> panics on every call: \<^verbatim>\<open>execInternal\<close> calls it once, sleeps never,
  calls no fallback and returns nil. With the \<^verbatim>\<open>Exec\<close> that Go binds the call to
  (the one of \<^verbatim>\<open>BaseNode\<close>) the outcome is the same: one call, nil.
\<close>

theorem sync_retry_gives_up_after_one_attempt:
  "Node_execInternal (\<lambda>prepRes. Panics ''transient error'') (NewNode 3 10000000) VNil =
     (VNil, NewNode 3 10000000, [EvExecCall VNil])
   \<and> Node_execInternal Node_Exec (NewNode 3 10000000) VNil =
     (VNil, NewNode 3 10000000, [EvExecCall VNil])"
  by (simp add: Node_execInternal_once NewNode_def Node_Exec_def BaseNode_Exec_def)

text \<open>
  C8, evaluated. The default fallback hands back the error it was given, but the
  synchronous retry executor never returns that value: with one attempt allowed and an
  \<^verbatim>\<open>Exec\<close> that panics with the error \<open>boom\<close>, \<^verbatim>\<open>execInternal\<close> yields nil, which is
  not what the fallback returns, and no fallback call is among its events.
\<close>

theorem sync_retry_result_is_not_the_fallback:
  "Node_ExecFallback prepRes ''boom'' = VErr ''boom''
   \<and> fst (Node_execInternal (\<lambda>prepRes. Panics ''boom'') (NewNode 1 0) prepRes) = VNil
   \<and> fst (Node_execInternal (\<lambda>prepRes. Panics ''boom'') (NewNode 1 0) prepRes)
       \<noteq> Node_ExecFallback prepRes ''boom''
   \<and> EvFallback prepRes ''boom''
       \<notin> set (snd (snd (Node_execInternal (\<lambda>prepRes. Panics ''boom'') (NewNode 1 0) prepRes)))"
  by (simp add: Node_execInternal_once NewNode_def Node_ExecFallback_def)

text \<open>
  The asynchronous executor, whose attempts recover one by one, does what the synchronous
  one was meant to do: with \<open>k + 1\<close> attempts allowed and an \<^verbatim>\<open>ExecAsync\<close> that always
  panics, it calls \<^verbatim>\<open>ExecAsync\<close> \<open>k + 1\<close> times, sleeps between the attempts when the
  wait is positive, calls the fallback once and yields its value.
\<close>

lemma AsyncNode_attempts_all_fail:
  assumes "\<And>p. ExecAsync p = Panics e" and "0 \<le> i" and "i < maxRetries a"
  shows "AsyncNode_attempts ExecAsync a i prepRes =
           (VErr e,
            concat (replicate (nat (maxRetries a - 1 - i))
                      (EvExecAsyncCall prepRes # (if wait a > 0 then [EvSleep (wait a)] else [])))
            @ [EvExecAsyncCall prepRes, EvFallbackAsync prepRes e])"
  using assms(2,3)
proof (induction "nat (maxRetries a - 1 - i)" arbitrary: i)
  case 0
  then have "i = maxRetries a - 1" by simp
  then show ?case
    by (subst AsyncNode_attempts.simps)
       (simp add: assms(1) AsyncNode_ExecFallbackAsync_def)
next
  case (Suc k)
  then have lt: "i < maxRetries a - 1" and k: "k = nat (maxRetries a - 1 - (i + 1))"
    by simp_all
  have rest: "AsyncNode_attempts ExecAsync a (i + 1) prepRes =
           (VErr e,
            concat (replicate k
                      (EvExecAsyncCall prepRes # (if wait a > 0 then [EvSleep (wait a)] else [])))
            @ [EvExecAsyncCall prepRes, EvFallbackAsync prepRes e])"
    using Suc.hyps(1)[of "i + 1"] k Suc.prems lt by simp
  have n: "nat (maxRetries a - 1 - i) = Suc k" using Suc.hyps(2) by simp
  show ?case
    using lt
    by (subst AsyncNode_attempts.simps) (simp add: assms(1) rest n Let_def)
qed

section \<open>Batches\<close>

lemma BatchNode_items_map:
  "BatchNode_items Exec n itemsSlice =
     (map (\<lambda>item. fst (Node_execInternal Exec n item)) itemsSlice,
      (if itemsSlice = [] then n else n\<lparr>curRetry := 0\<rparr>),
      concat (map (\<lambda>item. snd (snd (Node_execInternal Exec n item))) itemsSlice))"
proof (induction itemsSlice arbitrary: n)
  case Nil
  show ?case by simp
next
  case (Cons item items)
  have after: "fst (snd (Node_execInternal Exec n item)) = n\<lparr>curRetry := 0\<rparr>"
    by (simp add: Node_execInternal_once split: outcome.splits)
  show ?case
    by (simp add: Let_def after Cons.IH Node_execInternal_curRetry)
qed

text \<open>
  With the \<^verbatim>\<open>Exec\<close> that the call is bound to, every element of the output is nil.
\<close>

lemma BatchNode_execInternal_bound:
  "0 < maxRetries n \<Longrightarrow>
   fst (BatchNode_execInternal Node_Exec n (VList xs)) = VList (replicate (length xs) VNil)"
  by (simp add: BatchNode_execInternal_def BatchNode_items_map Let_def Node_execInternal_once
        Node_Exec_def BaseNode_Exec_def map_replicate_const)

text \<open>
  C5. For every item list the batch executor returns a list of the same length whose
  \<open>i\<close>-th element is the value of the node's retry-wrapped Exec (\<^verbatim>\<open>Node.execInternal\<close>)
  on the \<open>i\<close>-th item alone, in input order, and its calls are those of the items in input
  order; a nil input and an empty list give the empty list with no call of Exec.
\<close>

theorem batch_results_index_for_index:
  "fst (BatchNode_execInternal Exec n (VList itemsSlice)) =
     VList (map (\<lambda>item. fst (Node_execInternal Exec n item)) itemsSlice)
   \<and> (\<exists>results. fst (BatchNode_execInternal Exec n (VList itemsSlice)) = VList results
         \<and> length results = length itemsSlice)
   \<and> snd (snd (BatchNode_execInternal Exec n (VList itemsSlice))) =
       concat (map (\<lambda>item. snd (snd (Node_execInternal Exec n item))) itemsSlice)
   \<and> BatchNode_execInternal Exec n VNil = (VList [], n, [])
   \<and> BatchNode_execInternal Exec n (VList []) = (VList [], n, [])"
  by (simp add: BatchNode_execInternal_def BatchNode_items_map Let_def)

lemma BatchFlow_runs_one:
  "BatchFlow_runs h f shared [VMap bpMap] tr =
     (case orchestrate h f shared
             (Some ((case params (h (flow_base f)) of None \<Rightarrow> Map.empty | Some m \<Rightarrow> m)
                    ++ map_of bpMap)) of
        None \<Rightarrow> None
      | Some (res, h', shared', t) \<Rightarrow> Some (h', shared', tr @ t))"
  by (simp split: option.splits)

text \<open>
  C7, evaluated. Whatever the batch flow, its heap and the store: \<^verbatim>\<open>runInternal\<close> gets
  nil from \<^verbatim>\<open>b.Prep\<close> (the Prep of \<^verbatim>\<open>BaseNode\<close>), so the slice of overrides is empty,
  \<^verbatim>\<open>orchestrate\<close> runs zero times (no node phase among the events), and Post is called
  once with nil as the Prep result; the heap and the store are as they were.
\<close>

theorem batch_flow_never_gets_a_batch:
  "BatchFlow_runInternal h b shared =
     Some (VNil, h, shared, [EvPrep (flow_base b), EvFlowPost (flow_base b) VNil VNil])"
  by (simp add: BatchFlow_runInternal_def BaseNode_Prep_def Flow_Post_def)

section \<open>The asynchronous flow and its nodes\<close>

lemma async_test_never_succeeds: "type_assert TAsyncNode (IPtr TBaseNode p) = None"
  by (simp add: type_assert_def)

lemma orchestrateAsync_loop_to_sync:
  assumes "orchestrateAsync_loop pol h shared ps cur la tr = Some y"
  shows "orchestrate_loop h shared ps cur la tr = Some y"
  using assms
proof (induction rule: orchestrateAsync_loop.raw_induct[rotated -1, consumes 1, case_names step])
  case (step f pol h shared ps cur la tr y)
  show ?case
    using step(2)
    apply (subst orchestrate_loop.simps)
    apply (auto simp: Let_def async_test_never_succeeds split: option.splits if_splits
                intro: step(1))
    done
qed

lemma orchestrate_loop_to_async:
  assumes "orchestrate_loop h shared ps cur la tr = Some y"
  shows "orchestrateAsync_loop pol h shared ps cur la tr = Some y"
  using assms
proof (induction rule: orchestrate_loop.raw_induct[rotated -1, consumes 1, case_names step])
  case (step f h shared ps cur la tr y)
  show ?case
    using step(2)
    apply (subst orchestrateAsync_loop.simps)
    apply (auto simp: Let_def async_test_never_succeeds split: option.splits if_splits
                intro: step(1))
    done
qed

text \<open>
  The async test in the loop can never succeed, so the asynchronous orchestrator is the
  synchronous one: same result, same events, for every flow.
\<close>

lemma orchestrateAsync_is_orchestrate:
  "orchestrateAsync pol h a shared ps = orchestrate h a shared ps"
proof -
  have loop: "orchestrateAsync_loop pol h shared ps' cur la tr = orchestrate_loop h shared ps' cur la tr"
    for ps' cur la tr
  proof (cases "orchestrateAsync_loop pol h shared ps' cur la tr")
    case None
    then show ?thesis
      using orchestrate_loop_to_async[of h shared ps' cur la tr _ pol]
      by (cases "orchestrate_loop h shared ps' cur la tr") auto
  next
    case (Some y)
    then show ?thesis using orchestrateAsync_loop_to_sync by simp
  qed
  show ?thesis
    by (simp add: orchestrateAsync_def orchestrate_def loop split: option.splits)
qed

text \<open>
  C4, evaluated. \<open>A\<close> is a \<^verbatim>\<open>*BaseNode\<close> and its successor \<open>B\<close>, registered under the action
  that \<open>A\<close> produces, is a \<^verbatim>\<open>*AsyncNode\<close>: the asynchronous orchestrator runs the
  synchronous phases of \<open>A\<close> and stops; no async phase of \<open>B\<close> is entered. When the start
  node itself is a \<^verbatim>\<open>*AsyncNode\<close> the channel yields nil and nothing has run.
\<close>

theorem async_flow_never_runs_an_async_node:
  "orchestrateAsync pol (wired TAsyncNode ''<nil>'') (flow_from_A TBaseNode) shared None =
     Some (VNil, SetParams (wired TAsyncNode ''<nil>'') 0 (Some Map.empty), shared,
           [EvPrep 0, EvExec 0, EvPost 0])
   \<and> orchestrateAsync pol (wired TBaseNode ''<nil>'') (flow_from_A TAsyncNode) shared None =
     Some (VNil, wired TBaseNode ''<nil>'', shared, [])"
proof -
  have one: "orchestrateAsync pol (wired TAsyncNode ''<nil>'') (flow_from_A TBaseNode) shared None =
     Some (VNil, SetParams (wired TAsyncNode ''<nil>'') 0 (Some Map.empty), shared,
           [EvPrep 0, EvExec 0, EvPost 0])"
    apply (simp add: orchestrateAsync_def flow_from_A_def type_assert_def)
    apply (subst orchestrateAsync_loop.simps)
    apply (simp add: wired_def Next_def NewBaseNode_def GetNextNode_def type_assert_def)
    done
  have two: "orchestrateAsync pol (wired TBaseNode ''<nil>'') (flow_from_A TAsyncNode) shared None =
     Some (VNil, wired TBaseNode ''<nil>'', shared, [])"
    by (simp add: orchestrateAsync_def flow_from_A_def type_assert_def)
  from one two show ?thesis by simp
qed

section \<open>The parallel batch executor\<close>

lemma length_fold_put_slot: "length (fold (put_slot task xs) order slots) = length slots"
  by (induction order arbitrary: slots) (auto simp: put_slot_def)

lemma nth_fold_put_slot:
  "length slots = length xs \<Longrightarrow> i < length xs \<Longrightarrow>
   fold (put_slot task xs) order slots ! i =
     (if i \<in> set order then Some (task (xs ! i)) else slots ! i)"
proof (induction order arbitrary: slots)
  case Nil
  then show ?case by simp
next
  case (Cons idx order)
  show ?case
    using Cons.prems Cons.IH[of "put_slot task xs idx slots"]
    by (auto simp: put_slot_def nth_list_update)
qed

lemma fill_slots_all:
  assumes "{..<length xs} \<subseteq> set order"
  shows "fill_slots task xs order = map (\<lambda>x. Some (task x)) xs"
proof (rule nth_equalityI)
  show "length (fill_slots task xs order) = length (map (\<lambda>x. Some (task x)) xs)"
    by (simp add: fill_slots_def length_fold_put_slot)
next
  fix i assume "i < length (fill_slots task xs order)"
  then have i: "i < length xs"
    by (simp add: fill_slots_def length_fold_put_slot)
  then have "i \<in> set order" using assms by auto
  then show "fill_slots task xs order ! i = map (\<lambda>x. Some (task x)) xs ! i"
    using i nth_fold_put_slot[of "replicate (length xs) None" xs i task order]
    by (simp add: fill_slots_def)
qed

lemma collect_all: "collect (map (\<lambda>x. Some (task x)) xs) = Some (map task xs)"
  by (simp add: collect_def list_all_iff comp_def)

text \<open>
  Once every item task has finished, in whatever order, the collector holds the values in
  input order, one per item. Whether the caller gets them is decided by the race between
  the launcher's close and the collector's send.
\<close>

lemma parallel_batch_delivery:
  assumes "{..<length itemsSlice} \<subseteq> set (completion sched)"
  shows "AsyncParallelBatchNode_execAsyncInternal ExecAsync a sched (VList itemsSlice) =
           (if close_first sched then \<lparr>received = VNil, send_on_closed = True\<rparr>
            else \<lparr>received = VList (map (\<lambda>itm. fst (AsyncNode_execAsyncInternal ExecAsync a itm))
                                       itemsSlice),
                  send_on_closed = False\<rparr>)"
  by (simp add: AsyncParallelBatchNode_execAsyncInternal_def fill_slots_all[OF assms] collect_all)

text \<open>
  C6, evaluated. Three items, all three tasks finished (in the order 2, 0, 1), and the
  launching goroutine's deferred close ahead of the collector's send, as it is whenever the
  launcher is not overtaken by every task and the collector: the caller's receive yields
  nil instead of a list of three, and the collector's send hits a closed channel.
\<close>

theorem parallel_batch_result_lost_to_early_close:
  "AsyncParallelBatchNode_execAsyncInternal AsyncNode_ExecAsync (NewNode 1 0)
     \<lparr>completion = [2, 0, 1], close_first = True\<rparr>
     (VList [VStr ''a'', VStr ''b'', VStr ''c'']) =
   \<lparr>received = VNil, send_on_closed = True\<rparr>"
proof -
  have all_done: "{..<length [VStr ''a'', VStr ''b'', VStr ''c'']}
                   \<subseteq> set (completion \<lparr>completion = [2, 0, 1], close_first = True\<rparr>)"
    by auto
  show ?thesis
    using parallel_batch_delivery[OF all_done] by simp
qed

end
